theory Spec2Isabelle
  imports Main "HOL-Library.AList" "HOL-Library.Product_Lexorder"
begin

section \<open>Game server manager: the launch controller of app/main.py\<close>

text \<open>
  The module keeps three globals (\<open>containers\<close>, \<open>latest_tags\<close>, \<open>min_supported_tag\<close>)
  and talks to three collaborators: the Docker Hub registry through \<open>requests\<close>, the
  Docker daemon through \<open>docker_client\<close>, and the operating system through \<open>socket\<close>.
  The globals are a record that every function takes and returns. The collaborators are
  functions from the history of calls made so far to the outcome of the latest call, so a
  collaborator may answer each call differently; the history is kept in the state.
  A Python exception is a value of type \<open>error\<close>, and a function that may raise returns
  \<open>error + 'a\<close> together with the state it leaves behind. Logging is not modelled.
\<close>

subsection \<open>Constants (lines 12-19)\<close>

definition DOCKER_USER :: string where
  "DOCKER_USER = ''stuxgames''"

definition DOCKER_REPO :: string where
  "DOCKER_REPO = ''flappierace''"

definition DOCKER_HUB_URL :: "string \<Rightarrow> string \<Rightarrow> string" where
  "DOCKER_HUB_URL user repo =
     ''https://hub.docker.com/v2/namespaces/'' @ user @ ''/repositories/'' @ repo @ ''/tags/''"

definition IMAGE_NAME :: string where
  "IMAGE_NAME = DOCKER_USER @ ''/'' @ DOCKER_REPO"

definition SECRETS_VOLUME :: string where
  "SECRETS_VOLUME = ''flappieracebackend_nginx_secrets''"

definition MAX_CONTAINER_RETRIES :: nat where
  "MAX_CONTAINER_RETRIES = 10"

definition MAX_RUNNING_SERVERS :: nat where
  "MAX_RUNNING_SERVERS = 20"

definition MAX_TAGS :: nat where
  "MAX_TAGS = 5"

subsection \<open>Exceptions\<close>

text \<open>
  The exception classes the module raises or lets through. In \<open>docker.errors\<close>,
  \<open>ImageNotFound\<close> derives from \<open>NotFound\<close>, which derives from \<open>APIError\<close>; the two
  \<open>isinstance\<close> tests below are the ones the \<open>except\<close> clauses of \<open>create_server\<close> make.
\<close>

datatype error =
    HTTPException nat string
  | Exception string
  | TypeError
  | KeyError
  | APIError
  | NotFound
  | ImageNotFound
  | ConnectionError
  | JSONDecodeError
  | OSError

fun isinstance_APIError :: "error \<Rightarrow> bool" where
  "isinstance_APIError APIError = True"
| "isinstance_APIError NotFound = True"
| "isinstance_APIError ImageNotFound = True"
| "isinstance_APIError _ = False"

fun isinstance_ImageNotFound :: "error \<Rightarrow> bool" where
  "isinstance_ImageNotFound ImageNotFound = True"
| "isinstance_ImageNotFound _ = False"

subsection \<open>Text of numbers and lists\<close>

definition digit_char :: "nat \<Rightarrow> char" where
  "digit_char d = ''0123456789'' ! d"

fun str_nat :: "nat \<Rightarrow> string" where
  "str_nat n = (if n < 10 then [digit_char n] else str_nat (n div 10) @ [digit_char (n mod 10)])"

declare str_nat.simps [simp del]

definition str_int :: "int \<Rightarrow> string" where
  "str_int i = (if i < 0 then ''-'' @ str_nat (nat (- i)) else str_nat (nat i))"

fun join :: "string \<Rightarrow> string list \<Rightarrow> string" where
  "join sep [] = []"
| "join sep [x] = x"
| "join sep (x # y # ys) = x @ sep @ join sep (y # ys)"

subsection \<open>The semantic-version library\<close>

text \<open>
  \<open>semantic_version\<close> is not part of the repository. A version is a value of a type
  \<open>'v\<close>; \<open>Version\<close> is the constructor applied to a string (\<open>None\<close> where it raises
  \<open>ValueError\<close>), \<open>str\<close> is \<open>str(v)\<close>, equality is \<open>==\<close> and the order of the type is the
  library's precedence order.
\<close>

record 'v semver =
  Version :: "string \<Rightarrow> 'v option"
  str :: "'v \<Rightarrow> string"

subsection \<open>Collaborators and state\<close>

datatype container = Container (container_id: string)

record run_spec =
  image :: string
  command :: "string list"
  tty :: bool
  ports :: "(string \<times> string \<times> int) list"
  volumes :: "string list"
  detach :: bool

datatype event =
    Requests_get string nat
  | Images_pull string string
  | Find_free_port
  | Containers_run run_spec
  | Container_reload string

datatype body = Malformed | Results "string list"

text \<open>
  Each collaborator sees the history including the call it answers.
  \<open>requests_get\<close> raises or returns a status code and a body; the body is \<open>Results names\<close>
  when it decodes to an object whose \<open>results\<close> are objects with the textual \<open>name\<close>s
  listed, and \<open>Malformed\<close> when reading it that way raises (\<open>JSONDecodeError\<close> stands
  for whichever exception that is).
  \<open>container_reload\<close> raises or returns the status the container has after the reload.
\<close>

record runtime =
  requests_get :: "event list \<Rightarrow> error + (int \<times> body)"
  images_pull :: "event list \<Rightarrow> error + unit"
  find_free_port :: "event list \<Rightarrow> error + int"
  containers_run :: "event list \<Rightarrow> error + container"
  container_reload :: "event list \<Rightarrow> error + string"

record 'v state =
  containers :: "(string \<times> container) list"
  latest_tags :: "'v list"
  min_supported_tag :: "'v option"
  trace :: "event list"

definition call :: "event \<Rightarrow> 'v state \<Rightarrow> 'v state" where
  "call ev s = s\<lparr>trace := trace s @ [ev]\<rparr>"

record game_request =
  name :: string
  list :: bool
  version :: string

definition supported_versions :: "'v semver \<Rightarrow> 'v state \<Rightarrow> string" where
  "supported_versions lib s = join '', '' (map (str lib) (latest_tags s))"

subsection \<open>get_latest_image_tags (lines 98-121)\<close>

fun parse_tags :: "'v::ord semver \<Rightarrow> string list \<Rightarrow> 'v list \<Rightarrow> 'v option \<Rightarrow> 'v list \<times> 'v option" where
  "parse_tags lib [] tags min_tag = (tags, min_tag)"
| "parse_tags lib (n # ns) tags min_tag =
     (case Version lib n of
        None \<Rightarrow> parse_tags lib ns tags min_tag
      | Some v \<Rightarrow>
          parse_tags lib ns (tags @ [v])
            (case min_tag of
               None \<Rightarrow> Some v
             | Some m \<Rightarrow> if v < m then Some v else Some m))"

definition get_latest_image_tags ::
  "'v::ord semver \<Rightarrow> runtime \<Rightarrow> string \<Rightarrow> string \<Rightarrow> 'v state \<Rightarrow> (error + unit) \<times> 'v state" where
  "get_latest_image_tags lib rt user repo s =
     (let s1 = call (Requests_get (DOCKER_HUB_URL user repo) MAX_TAGS) s in
      case requests_get rt (trace s1) of
        Inl e \<Rightarrow> (Inl e, s1)
      | Inr (status_code, data) \<Rightarrow>
          if status_code \<noteq> 200 then (Inr (), s1)
          else (case data of
                  Malformed \<Rightarrow> (Inl JSONDecodeError, s1)
                | Results names \<Rightarrow>
                    (case parse_tags lib names [] None of
                       (tags, min_tag) \<Rightarrow>
                         (Inr (), s1\<lparr>latest_tags := tags, min_supported_tag := min_tag\<rparr>))))"

subsection \<open>remove_stopped_containers (lines 124-135)\<close>

text \<open>
  \<open>containers.pop(k)\<close> raises \<open>KeyError\<close> when \<open>k\<close> is not a key. A \<open>pop\<close> that raises
  inside the \<open>try\<close> is caught by the bare \<open>except\<close>, whose own \<open>pop\<close> then raises the same
  error to the caller; so in both places a failing \<open>pop\<close> ends the function with \<open>KeyError\<close>.
\<close>

definition pop :: "string \<Rightarrow> 'v state \<Rightarrow> (error + unit) \<times> 'v state" where
  "pop k s =
     (case map_of (containers s) k of
        None \<Rightarrow> (Inl KeyError, s)
      | Some c \<Rightarrow> (Inr (), s\<lparr>containers := AList.delete k (containers s)\<rparr>))"

fun reconcile :: "runtime \<Rightarrow> container list \<Rightarrow> 'v state \<Rightarrow> (error + unit) \<times> 'v state" where
  "reconcile rt [] s = (Inr (), s)"
| "reconcile rt (c # cs) s =
     (let s1 = call (Container_reload (container_id c)) s in
      if container_reload rt (trace s1) = Inr ''running'' then reconcile rt cs s1
      else (case pop (container_id c) s1 of
              (Inl e, s2) \<Rightarrow> (Inl e, s2)
            | (Inr u, s2) \<Rightarrow> reconcile rt cs s2))"

definition remove_stopped_containers :: "runtime \<Rightarrow> 'v state \<Rightarrow> (error + unit) \<times> 'v state" where
  "remove_stopped_containers rt s = reconcile rt (map snd (containers s)) s"

subsection \<open>check_images_pulled (lines 138-142)\<close>

fun check_images_pulled ::
  "'v semver \<Rightarrow> runtime \<Rightarrow> string \<Rightarrow> 'v list \<Rightarrow> 'v state \<Rightarrow> (error + unit) \<times> 'v state" where
  "check_images_pulled lib rt img [] s = (Inr (), s)"
| "check_images_pulled lib rt img (t # ts) s =
     (let s1 = call (Images_pull img (str lib t)) s in
      case images_pull rt (trace s1) of
        Inl e \<Rightarrow> (Inl e, s1)
      | Inr u \<Rightarrow> check_images_pulled lib rt img ts s1)"

subsection \<open>create_server (lines 145-179)\<close>

definition run_request :: "game_request \<Rightarrow> int \<Rightarrow> run_spec" where
  "run_request req port =
     \<lparr> image = IMAGE_NAME @ '':'' @ version req,
       command = [''--name'', name req, ''--port'', str_int port]
                 @ (if list req then [''--list''] else []),
       tty = True,
       ports = [(str_int port @ ''/udp'', ''0.0.0.0'', port),
                (str_int port @ ''/tcp'', ''0.0.0.0'', port)],
       volumes = [SECRETS_VOLUME @ '':/secrets:ro''],
       detach = True \<rparr>"

text \<open>The body of the \<open>try\<close>: a port, then the container.\<close>

definition try_run :: "runtime \<Rightarrow> game_request \<Rightarrow> 'v state \<Rightarrow> (error + container \<times> int) \<times> 'v state" where
  "try_run rt req s =
     (let s1 = call Find_free_port s in
      case find_free_port rt (trace s1) of
        Inl e \<Rightarrow> (Inl e, s1)
      | Inr port \<Rightarrow>
          (let s2 = call (Containers_run (run_request req port)) s1 in
           case containers_run rt (trace s2) of
             Inl e \<Rightarrow> (Inl e, s2)
           | Inr c \<Rightarrow> (Inr (c, port), s2)))"

definition launch_failed :: error where
  "launch_failed =
     Exception (''Failed to create container after '' @ str_nat MAX_CONTAINER_RETRIES
                @ '' attempts - stopping.'')"

text \<open>
  The \<open>for ... else\<close> loop over \<open>range(MAX_CONTAINER_RETRIES)\<close>. The \<open>except\<close> clauses
  are tried in the order written: \<open>APIError\<close> first, \<open>ImageNotFound\<close> second; an
  exception of neither class leaves the function.
\<close>

fun create_loop ::
  "'v semver \<Rightarrow> runtime \<Rightarrow> game_request \<Rightarrow> nat list \<Rightarrow> 'v state \<Rightarrow> (error + int) \<times> 'v state" where
  "create_loop lib rt req [] s = (Inl launch_failed, s)"
| "create_loop lib rt req (attempt # rest) s =
     (case try_run rt req s of
        (Inr (c, port), s1) \<Rightarrow>
          (Inr port, s1\<lparr>containers := AList.update (container_id c) c (containers s1)\<rparr>)
      | (Inl e, s1) \<Rightarrow>
          if isinstance_APIError e then create_loop lib rt req rest s1
          else if isinstance_ImageNotFound e then
            (case check_images_pulled lib rt IMAGE_NAME (latest_tags s1) s1 of
               (Inl e', s2) \<Rightarrow> (Inl e', s2)
             | (Inr u, s2) \<Rightarrow> create_loop lib rt req rest s2)
          else (Inl e, s1))"

definition create_server ::
  "'v semver \<Rightarrow> runtime \<Rightarrow> game_request \<Rightarrow> 'v state \<Rightarrow> (error + int) \<times> 'v state" where
  "create_server lib rt req s =
     (case check_images_pulled lib rt IMAGE_NAME (latest_tags s) s of
        (Inl e, s1) \<Rightarrow> (Inl e, s1)
      | (Inr u, s1) \<Rightarrow> create_loop lib rt req [0..<MAX_CONTAINER_RETRIES] s1)"

subsection \<open>request_game (lines 64-95)\<close>

definition invalid_version :: "'v semver \<Rightarrow> 'v state \<Rightarrow> error" where
  "invalid_version lib s =
     HTTPException 400
       (''Request didn't contain a valid version! Supported versions: '' @ supported_versions lib s)"

definition capacity_exceeded :: error where
  "capacity_exceeded =
     HTTPException 429 ''Max amount of official servers reached! Try joining a public one.''"

definition version_too_old :: "'v semver \<Rightarrow> 'v state \<Rightarrow> error" where
  "version_too_old lib s =
     HTTPException 426
       (''Your game version is out of date! Supported versions: '' @ supported_versions lib s)"

definition unsupported_version :: "'v semver \<Rightarrow> 'v state \<Rightarrow> error" where
  "unsupported_version lib s =
     HTTPException 400 (''Unsupported game version! Supported versions: '' @ supported_versions lib s)"

text \<open>
  \<open>version < min_supported_tag\<close> raises \<open>TypeError\<close> when \<open>min_supported_tag\<close> is \<open>None\<close>:
  the library's comparison answers \<open>NotImplemented\<close> for an operand that is not a version.
\<close>

definition request_game ::
  "'v::ord semver \<Rightarrow> runtime \<Rightarrow> game_request \<Rightarrow> 'v state \<Rightarrow> (error + int) \<times> 'v state" where
  "request_game lib rt req s =
     (case Version lib (version req) of
        None \<Rightarrow> (Inl (invalid_version lib s), s)
      | Some v \<Rightarrow>
          (case remove_stopped_containers rt s of
             (Inl e, s1) \<Rightarrow> (Inl e, s1)
           | (Inr u, s1) \<Rightarrow>
               if length (containers s1) \<ge> MAX_RUNNING_SERVERS then (Inl capacity_exceeded, s1)
               else (case min_supported_tag s1 of
                       None \<Rightarrow> (Inl TypeError, s1)
                     | Some m \<Rightarrow>
                         if v < m then (Inl (version_too_old lib s1), s1)
                         else if v \<notin> set (latest_tags s1) then
                           (case get_latest_image_tags lib rt DOCKER_USER DOCKER_REPO s1 of
                              (Inl e, s2) \<Rightarrow> (Inl e, s2)
                            | (Inr u, s2) \<Rightarrow>
                                if v \<notin> set (latest_tags s2)
                                then (Inl (unsupported_version lib s2), s2)
                                else create_server lib rt req s2)
                         else create_server lib rt req s1)))"

subsection \<open>Startup (lines 26-32)\<close>

definition lifespan_startup :: "'v::ord semver \<Rightarrow> runtime \<Rightarrow> 'v state \<Rightarrow> (error + unit) \<times> 'v state" where
  "lifespan_startup lib rt s =
     (case get_latest_image_tags lib rt DOCKER_USER DOCKER_REPO s of
        (Inl e, s1) \<Rightarrow> (Inl e, s1)
      | (Inr u, s1) \<Rightarrow> check_images_pulled lib rt IMAGE_NAME (latest_tags s1) s1)"

text \<open>The module's globals as the import leaves them (lines 39-41).\<close>

definition initial :: "'v state" where
  "initial = \<lparr> containers = [], latest_tags = [], min_supported_tag = None, trace = [] \<rparr>"

section \<open>Vocabulary of the properties\<close>

text \<open>The supported list and the minimum, together.\<close>

definition catalog :: "'v state \<Rightarrow> 'v list \<times> 'v option" where
  "catalog s = (latest_tags s, min_supported_tag s)"

text \<open>
  The calls a history is made of: the registry call of a refresh, the pulls of a list of
  versions, the reloads of a list of container ids, and the attempts of the creation loop,
  each a port allocation followed by the creation call with the port in \<open>ps\<close>.
\<close>

definition refresh_call :: "string \<Rightarrow> string \<Rightarrow> event" where
  "refresh_call user repo = Requests_get (DOCKER_HUB_URL user repo) MAX_TAGS"

definition pulls :: "'v semver \<Rightarrow> string \<Rightarrow> 'v list \<Rightarrow> event list" where
  "pulls lib img ts = map (\<lambda>t. Images_pull img (str lib t)) ts"

definition reloads :: "string list \<Rightarrow> event list" where
  "reloads ks = map Container_reload ks"

definition attempt_events :: "game_request \<Rightarrow> int list \<Rightarrow> event list" where
  "attempt_events req ps =
     concat (map (\<lambda>p. [Find_free_port, Containers_run (run_request req p)]) ps)"

text \<open>How many creation calls, and how many registry calls, a history holds.\<close>

fun is_run :: "event \<Rightarrow> bool" where
  "is_run (Containers_run spec) = True"
| "is_run _ = False"

definition runs :: "event list \<Rightarrow> nat" where
  "runs tr = length (filter is_run tr)"

fun is_refresh :: "event \<Rightarrow> bool" where
  "is_refresh (Requests_get url n) = True"
| "is_refresh _ = False"

definition refreshes :: "event list \<Rightarrow> nat" where
  "refreshes tr = length (filter is_refresh tr)"

text \<open>
  The registry as \<open>create_server\<close> builds it with \<open>containers[container.id] = container\<close>:
  the keys of a dictionary are distinct, and every key is the id of its container.
\<close>

definition registry_ok :: "(string \<times> container) list \<Rightarrow> bool" where
  "registry_ok cs \<longleftrightarrow> distinct (map fst cs) \<and> (\<forall>(k, c) \<in> set cs. container_id c = k)"

text \<open>
  \<open>reload_answer rt tr k\<close> is what the runtime answered to the latest reload of container
  \<open>k\<close> in the history \<open>tr\<close>; \<open>stopped\<close> lists the ids, among those reloaded in turn from
  the history \<open>tr\<close>, whose reload did not answer \<open>running\<close>.
\<close>

definition reload_answer :: "runtime \<Rightarrow> event list \<Rightarrow> string \<Rightarrow> error + string" where
  "reload_answer rt tr k =
     container_reload rt (rev (dropWhile (\<lambda>e. e \<noteq> Container_reload k) (rev tr)))"

fun stopped :: "runtime \<Rightarrow> event list \<Rightarrow> string list \<Rightarrow> string list" where
  "stopped rt tr [] = []"
| "stopped rt tr (k # ks) =
     (if container_reload rt (tr @ [Container_reload k]) = Inr ''running'' then []
      else [k]) @ stopped rt (tr @ [Container_reload k]) ks"

section \<open>Data for the examples\<close>

text \<open>
  A library instance for the examples: the versions of the spec's ordering example, as
  triples under the lexicographic order, and no other string accepted (the examples use
  \<open>latest\<close> as a tag name that is not a version).
\<close>

definition plain :: "(nat \<times> nat \<times> nat) semver" where
  "plain = \<lparr> Version = map_of [(''1.1.9'', (1, 1, 9)), (''1.2.0'', (1, 2, 0)),
                                (''1.2.1'', (1, 2, 1)), (''1.3.0'', (1, 3, 0))],
             str = (\<lambda>(a, b, c). str_nat a @ ''.'' @ str_nat b @ ''.'' @ str_nat c) \<rparr>"

text \<open>Collaborators that always succeed; the examples vary one answer at a time.\<close>

definition healthy :: runtime where
  "healthy = \<lparr> requests_get = (\<lambda>tr. Inr (200, Results [''1.3.0'', ''latest'', ''1.2.0''])),
               images_pull = (\<lambda>tr. Inr ()),
               find_free_port = (\<lambda>tr. Inr (40000 + int (length tr))),
               containers_run = (\<lambda>tr. Inr (Container (''c'' @ str_nat (length tr)))),
               container_reload = (\<lambda>tr. Inr ''running'') \<rparr>"

definition registry_unavailable :: runtime where
  "registry_unavailable = healthy\<lparr>requests_get := (\<lambda>tr. Inr (503, Malformed))\<rparr>"

definition registry_down :: runtime where
  "registry_down = healthy\<lparr>requests_get := (\<lambda>tr. Inl ConnectionError)\<rparr>"

text \<open>A registry that lists versions on the first call and only \<open>latest\<close> afterwards.\<close>

definition registry_emptied :: runtime where
  "registry_emptied =
     healthy\<lparr>requests_get :=
       (\<lambda>tr. Inr (200, Results (if length tr \<le> 1 then [''1.3.0'', ''latest'', ''1.2.0'']
                                 else [''latest''])))\<rparr>"

text \<open>A daemon that cannot pull 1.3.0, and daemons whose creation calls fail.\<close>

definition first_pull_fails :: runtime where
  "first_pull_fails =
     healthy\<lparr>images_pull :=
       (\<lambda>tr. if last tr = Images_pull IMAGE_NAME ''1.3.0'' then Inl NotFound else Inr ())\<rparr>"



definition image_evicted :: runtime where
  "image_evicted =
     healthy\<lparr>containers_run :=
       (\<lambda>tr. if runs tr < 2 then Inl ImageNotFound else Inr (Container ''c2''))\<rparr>"

text \<open>A daemon with one container running, one exited and one gone.\<close>

definition mixed_fleet :: runtime where
  "mixed_fleet =
     healthy\<lparr>container_reload :=
       (\<lambda>tr. if last tr = Container_reload ''c1'' then Inr ''running''
             else if last tr = Container_reload ''c2'' then Inr ''exited''
             else Inl NotFound)\<rparr>"

text \<open>States: a populated catalog, with no container, with three, and with the maximum.\<close>

definition stocked :: "(nat \<times> nat \<times> nat) state" where
  "stocked = \<lparr> containers = [], latest_tags = [(1, 3, 0), (1, 2, 0)],
               min_supported_tag = Some (1, 2, 0), trace = [] \<rparr>"

definition fleet :: "(nat \<times> nat \<times> nat) state" where
  "fleet = stocked\<lparr>containers := [(''c1'', Container ''c1''), (''c2'', Container ''c2''),
                                    (''c3'', Container ''c3'')]\<rparr>"

definition full_house :: "(nat \<times> nat \<times> nat) state" where
  "full_house =
     stocked\<lparr>containers :=
       map (\<lambda>i. (''c'' @ str_nat i, Container (''c'' @ str_nat i))) [0..<MAX_RUNNING_SERVERS]\<rparr>"

text \<open>Requests: for a supported version, and for strings the version gate refuses.\<close>

definition room :: game_request where
  "room = \<lparr> name = ''room'', list = False, version = ''1.2.0'' \<rparr>"

definition untagged :: game_request where
  "untagged = \<lparr> name = ''room'', list = True, version = ''latest'' \<rparr>"

definition outdated :: game_request where
  "outdated = \<lparr> name = ''room'', list = True, version = ''1.1.9'' \<rparr>"

definition unlisted :: game_request where
  "unlisted = \<lparr> name = ''room'', list = True, version = ''1.2.1'' \<rparr>"

section \<open>Properties\<close>

subsection \<open>The catalog\<close>

lemma call_simps [simp]:
  "containers (call ev s) = containers s"
  "latest_tags (call ev s) = latest_tags s"
  "min_supported_tag (call ev s) = min_supported_tag s"
  "trace (call ev s) = trace s @ [ev]"
  by (simp_all add: call_def)

lemma parse_tags_fst:
  "fst (parse_tags lib ns tags m) = tags @ List.map_filter (Version lib) ns"
  by (induction ns arbitrary: tags m) (auto simp: List.map_filter_simps split: option.splits)

lemma parse_tags_none:
  "(snd (parse_tags lib ns tags m) = None) = (m = None \<and> List.map_filter (Version lib) ns = [])"
  by (induction ns arbitrary: tags m) (auto simp: List.map_filter_simps split: option.splits)

lemma parse_tags_min:
  fixes lib :: "'v::preorder semver"
  assumes "snd (parse_tags lib ns tags m0) = Some m"
    and "\<forall>a. m0 = Some a \<longrightarrow> a \<in> set tags \<and> (\<forall>x \<in> set tags. \<not> x < a)"
    and "m0 = None \<longrightarrow> tags = []"
  shows "m \<in> set (fst (parse_tags lib ns tags m0)) \<and>
         (\<forall>x \<in> set (fst (parse_tags lib ns tags m0)). \<not> x < m)"
  using assms
proof (induction ns arbitrary: tags m0)
  case Nil
  then show ?case by auto
next
  case (Cons n ns)
  show ?case
  proof (cases "Version lib n")
    case None
    with Cons show ?thesis by simp
  next
    case (Some v)
    note parsed = this
    show ?thesis
    proof (cases m0)
      case None
      with Cons.prems parsed have "snd (parse_tags lib ns ([] @ [v]) (Some v)) = Some m"
        by simp
      from Cons.IH[OF this] None Cons.prems parsed show ?thesis by simp
    next
      case (Some a)
      note m0 = this
      show ?thesis
      proof (cases "v < a")
        case True
        with Cons.prems parsed m0
        have 1: "snd (parse_tags lib ns (tags @ [v]) (Some v)) = Some m" by simp
        have 2: "\<forall>b. Some v = Some b \<longrightarrow>
                   b \<in> set (tags @ [v]) \<and> (\<forall>x \<in> set (tags @ [v]). \<not> x < b)"
          using Cons.prems(2) m0 True by (auto dest: less_trans)
        from Cons.IH[OF 1 2] True m0 parsed show ?thesis by simp
      next
        case False
        with Cons.prems parsed m0
        have 1: "snd (parse_tags lib ns (tags @ [v]) (Some a)) = Some m" by simp
        have 2: "\<forall>b. Some a = Some b \<longrightarrow>
                   b \<in> set (tags @ [v]) \<and> (\<forall>x \<in> set (tags @ [v]). \<not> x < b)"
          using Cons.prems(2) m0 False by auto
        from Cons.IH[OF 1 2] False m0 parsed show ?thesis by simp
      qed
    qed
  qed
qed

lemma refresh_cases:
  fixes lib :: "'v::ord semver"
  assumes "get_latest_image_tags lib rt user repo s = (res, s')"
  shows "containers s' = containers s \<and> trace s' = trace s @ [refresh_call user repo] \<and>
         (case requests_get rt (trace s @ [refresh_call user repo]) of
            Inl e \<Rightarrow> res = Inl e \<and> catalog s' = catalog s
          | Inr (code, data) \<Rightarrow>
              if code \<noteq> 200 then res = Inr () \<and> catalog s' = catalog s
              else (case data of
                      Malformed \<Rightarrow> res = Inl JSONDecodeError \<and> catalog s' = catalog s
                    | Results names \<Rightarrow>
                        res = Inr () \<and> catalog s' = parse_tags lib names [] None))"
  using assms
  by (auto simp: get_latest_image_tags_def Let_def catalog_def refresh_call_def
      split: sum.splits body.splits prod.splits if_splits)




text \<open>
  C8, as amended. After a successful refresh the supported list is the returned tag
  names that parse as versions, in the order returned, whatever was supported before.
  The minimum is absent exactly when no returned name parses; otherwise it is a member of
  the supported list that no member precedes.
\<close>

theorem refresh_success_catalog:
  fixes lib :: "'v::preorder semver"
  assumes "requests_get rt (trace s @ [refresh_call user repo]) = Inr (200, Results names)"
    and "s' = snd (get_latest_image_tags lib rt user repo s)"
  shows "fst (get_latest_image_tags lib rt user repo s) = Inr ()
       \<and> latest_tags s' = List.map_filter (Version lib) names
       \<and> (min_supported_tag s' = None \<longleftrightarrow> latest_tags s' = [])
       \<and> (\<forall>m. min_supported_tag s' = Some m \<longrightarrow>
             m \<in> set (latest_tags s') \<and> (\<forall>x \<in> set (latest_tags s'). \<not> x < m))"
proof -
  from refresh_cases[of lib rt user repo s "fst (get_latest_image_tags lib rt user repo s)" s']
    assms
  have r: "fst (get_latest_image_tags lib rt user repo s) = Inr ()"
    and c: "catalog s' = parse_tags lib names [] None"
    by simp_all
  from c have "fst (catalog s') = fst (parse_tags lib names [] None)"
    and "snd (catalog s') = snd (parse_tags lib names [] None)"
    by simp_all
  then have t: "latest_tags s' = fst (parse_tags lib names [] None)"
    and m: "min_supported_tag s' = snd (parse_tags lib names [] None)"
    by (simp_all add: catalog_def)
  have 1: "latest_tags s' = List.map_filter (Version lib) names"
    using t by (simp add: parse_tags_fst)
  have 2: "min_supported_tag s' = None \<longleftrightarrow> latest_tags s' = []"
    using m 1 by (simp add: parse_tags_none)
  have 3: "m' \<in> set (latest_tags s') \<and> (\<forall>x \<in> set (latest_tags s'). \<not> x < m')"
    if "min_supported_tag s' = Some m'" for m'
    using parse_tags_min[of lib names "[]" None m'] that m t by simp
  from r 1 2 3 show ?thesis by blast
qed

theorem refresh_success_catalog_witness:
  "latest_tags (snd (get_latest_image_tags plain healthy DOCKER_USER DOCKER_REPO initial))
     = [(1, 3, 0), (1, 2, 0)]
   \<and> min_supported_tag (snd (get_latest_image_tags plain healthy DOCKER_USER DOCKER_REPO initial))
     = Some (1, 2, 0)"
proof -
  have a: "requests_get healthy (trace (initial :: (nat \<times> nat \<times> nat) state)
             @ [refresh_call DOCKER_USER DOCKER_REPO])
           = Inr (200, Results [''1.3.0'', ''latest'', ''1.2.0''])"
    by (simp add: healthy_def)
  have b: "List.map_filter (Version plain) [''1.3.0'', ''latest'', ''1.2.0'']
           = [(1, 3, 0), (1, 2, 0)]"
    by (simp add: plain_def List.map_filter_simps)
  let ?s = "snd (get_latest_image_tags plain healthy DOCKER_USER DOCKER_REPO initial)"
  note th = refresh_success_catalog[OF a refl, of plain]
  from th have t0: "latest_tags ?s = List.map_filter (Version plain) [''1.3.0'', ''latest'', ''1.2.0'']"
    by blast
  from th have n0: "min_supported_tag ?s = None \<longleftrightarrow> latest_tags ?s = []"
    by blast
  from th have m: "\<forall>m. min_supported_tag ?s = Some m \<longrightarrow>
              m \<in> set (latest_tags ?s) \<and> (\<forall>x \<in> set (latest_tags ?s). \<not> x < m)"
    by blast
  from t0 b have t: "latest_tags ?s = [(1, 3, 0), (1, 2, 0)]"
    by (rule trans)
  from n0 t have n: "min_supported_tag ?s \<noteq> None"
    by simp
  from n obtain m where s: "min_supported_tag ?s = Some m" by auto
  with m have mem: "m \<in> set (latest_tags ?s)"
    and least: "\<forall>x \<in> set (latest_tags ?s). \<not> x < m"
    by auto
  from mem t have "m = (1, 3, 0) \<or> m = (1, 2, 0)" by simp
  moreover from least t have "\<not> ((1, 2, 0) :: nat \<times> nat \<times> nat) < m" by simp
  moreover have "((1, 2, 0) :: nat \<times> nat \<times> nat) < (1, 3, 0)" by simp
  ultimately have "m = (1, 2, 0)" by blast
  with s t show ?thesis by simp
qed

text \<open>
  C8 as stated fails where a successful refresh returns no name that parses: the
  minimum becomes absent although an earlier refresh had populated the catalog.
\<close>

theorem refresh_empties_minimum_counterexample:
  "catalog (snd (get_latest_image_tags plain registry_emptied DOCKER_USER DOCKER_REPO initial))
     = ([(1, 3, 0), (1, 2, 0)], Some (1, 2, 0))
   \<and> get_latest_image_tags plain registry_emptied DOCKER_USER DOCKER_REPO
       (snd (get_latest_image_tags plain registry_emptied DOCKER_USER DOCKER_REPO initial))
     = (Inr (), \<lparr> containers = [], latest_tags = [], min_supported_tag = None,
                  trace = [refresh_call DOCKER_USER DOCKER_REPO,
                           refresh_call DOCKER_USER DOCKER_REPO] \<rparr>)"
  by (simp add: get_latest_image_tags_def registry_emptied_def healthy_def plain_def
      initial_def catalog_def call_def refresh_call_def)

subsection \<open>Pulling images\<close>

lemma pulls_simps [simp]:
  "pulls lib img [] = []"
  "pulls lib img (t # ts) = Images_pull img (str lib t) # pulls lib img ts"
  by (simp_all add: pulls_def)

lemma check_images_pulled_ok:
  assumes "\<forall>j<length ts. images_pull rt (trace s @ pulls lib img (take (Suc j) ts)) = Inr ()"
  shows "check_images_pulled lib rt img ts s = (Inr (), s\<lparr>trace := trace s @ pulls lib img ts\<rparr>)"
  using assms
proof (induction ts arbitrary: s)
  case Nil
  then show ?case by simp
next
  case (Cons t ts)
  from Cons.prems have h: "images_pull rt (trace s @ [Images_pull img (str lib t)]) = Inr ()"
    by (auto dest: spec[of _ 0])
  have "\<forall>j<length ts. images_pull rt (trace (call (Images_pull img (str lib t)) s)
           @ pulls lib img (take (Suc j) ts)) = Inr ()"
  proof (intro allI impI)
    fix j assume "j < length ts"
    with Cons.prems have "images_pull rt (trace s @ pulls lib img (take (Suc (Suc j)) (t # ts))) = Inr ()"
      by (auto dest: spec[of _ "Suc j"])
    then show "images_pull rt (trace (call (Images_pull img (str lib t)) s)
           @ pulls lib img (take (Suc j) ts)) = Inr ()" by simp
  qed
  from Cons.IH[OF this] h show ?case by (simp add: call_def)
qed

lemma check_images_pulled_fail:
  assumes "k < length ts"
    and "\<forall>j<k. images_pull rt (trace s @ pulls lib img (take (Suc j) ts)) = Inr ()"
    and "images_pull rt (trace s @ pulls lib img (take (Suc k) ts)) = Inl e"
  shows "check_images_pulled lib rt img ts s
         = (Inl e, s\<lparr>trace := trace s @ pulls lib img (take (Suc k) ts)\<rparr>)"
  using assms
proof (induction ts arbitrary: s k)
  case Nil
  then show ?case by simp
next
  case (Cons t ts)
  show ?case
  proof (cases k)
    case 0
    with Cons.prems show ?thesis by (simp add: call_def)
  next
    case (Suc k')
    from Cons.prems(2) Suc have h: "images_pull rt (trace s @ [Images_pull img (str lib t)]) = Inr ()"
      by (auto dest: spec[of _ 0])
    let ?s1 = "call (Images_pull img (str lib t)) s"
    have a: "k' < length ts" using Cons.prems(1) Suc by simp
    have b: "\<forall>j<k'. images_pull rt (trace ?s1 @ pulls lib img (take (Suc j) ts)) = Inr ()"
    proof (intro allI impI)
      fix j assume "j < k'"
      with Cons.prems(2) Suc have "images_pull rt (trace s @ pulls lib img (take (Suc (Suc j)) (t # ts))) = Inr ()"
        by (auto dest: spec[of _ "Suc j"])
      then show "images_pull rt (trace ?s1 @ pulls lib img (take (Suc j) ts)) = Inr ()" by simp
    qed
    have c: "images_pull rt (trace ?s1 @ pulls lib img (take (Suc k') ts)) = Inl e"
      using Cons.prems(3) Suc by simp
    from Cons.IH[OF a b c] h Suc show ?thesis by (simp add: call_def)
  qed
qed

lemma check_images_pulled_frame:
  "check_images_pulled lib rt img ts s = (res, s') \<Longrightarrow>
     containers s' = containers s \<and> latest_tags s' = latest_tags s \<and>
     min_supported_tag s' = min_supported_tag s \<and>
     (\<exists>k\<le>length ts. trace s' = trace s @ pulls lib img (take k ts))"
proof (induction ts arbitrary: s)
  case Nil
  then show ?case by auto
next
  case (Cons t ts)
  show ?case
  proof (cases "images_pull rt (trace s @ [Images_pull img (str lib t)])")
    case (Inl e)
    with Cons.prems have "s' = call (Images_pull img (str lib t)) s" by auto
    then have "trace s' = trace s @ pulls lib img (take 1 (t # ts))" by simp
    with \<open>s' = _\<close> show ?thesis by (auto intro!: exI[of _ 1])
  next
    case (Inr u)
    with Cons.prems have "check_images_pulled lib rt img ts (call (Images_pull img (str lib t)) s) = (res, s')"
      by simp
    from Cons.IH[OF this] obtain k where "k \<le> length ts"
      "trace s' = trace s @ pulls lib img (take (Suc k) (t # ts))"
      and f: "containers s' = containers s" "latest_tags s' = latest_tags s" "min_supported_tag s' = min_supported_tag s"
      by auto
    then show ?thesis by (auto intro!: exI[of _ "Suc k"])
  qed
qed

lemma str_plain [simp]:
  "str plain (Suc 0, 3, 0) = ''1.3.0''" "str plain (Suc 0, 2, 0) = ''1.2.0''"
  by code_simp+

lemma remove_stopped_containers_empty [simp]:
  "containers s = [] \<Longrightarrow> remove_stopped_containers rt s = (Inr (), s)"
  by (simp add: remove_stopped_containers_def)

text \<open>
  C5, as amended. A pull failure during provisioning fails the request: the pull is made
  outside the \<open>try\<close> of \<open>create_server\<close>, so its exception reaches the caller at once,
  after the pulls made so far and before any port is allocated or container created.
\<close>

theorem provisioning_failure_fails_request:
  assumes "k < length (latest_tags s)"
    and "\<forall>j<k. images_pull rt (trace s @ pulls lib IMAGE_NAME (take (Suc j) (latest_tags s))) = Inr ()"
    and "images_pull rt (trace s @ pulls lib IMAGE_NAME (take (Suc k) (latest_tags s))) = Inl e"
  shows "create_server lib rt req s
         = (Inl e, s\<lparr>trace := trace s @ pulls lib IMAGE_NAME (take (Suc k) (latest_tags s))\<rparr>)"
  using check_images_pulled_fail[OF assms] by (simp add: create_server_def)

theorem provisioning_failure_fails_request_witness:
  "create_server plain first_pull_fails room stocked
   = (Inl NotFound, stocked\<lparr>trace := [Images_pull IMAGE_NAME ''1.3.0'']\<rparr>)"
proof -
  have a: "0 < length (latest_tags stocked)" by (simp add: stocked_def)
  have b: "\<forall>j<0. images_pull first_pull_fails
             (trace stocked @ pulls plain IMAGE_NAME (take (Suc j) (latest_tags stocked))) = Inr ()"
    by simp
  have c: "images_pull first_pull_fails
             (trace stocked @ pulls plain IMAGE_NAME (take (Suc 0) (latest_tags stocked))) = Inl NotFound"
    by (simp add: stocked_def first_pull_fails_def healthy_def)
  from provisioning_failure_fails_request[OF a b c, of room]
  show ?thesis by (simp add: stocked_def)
qed

text \<open>
  C5 as stated fails: a request for the supported version 1.2.0 ends with the pull's
  error after a single pull, with no creation attempt made.
\<close>

theorem provisioning_failure_counterexample:
  "request_game plain first_pull_fails room stocked
   = (Inl NotFound, stocked\<lparr>trace := [Images_pull IMAGE_NAME ''1.3.0'']\<rparr>)"
  by (simp add: request_game_def room_def stocked_def create_server_def plain_def
      first_pull_fails_def healthy_def call_def MAX_RUNNING_SERVERS_def str_nat.simps digit_char_def)

text \<open>
  C7, as amended. Every call of \<open>check_images_pulled\<close> asks the runtime to pull each
  listed version, whether or not it was pulled before: two calls in succession issue every
  pull twice.
\<close>

theorem pulls_repeat:
  assumes "\<forall>tr. images_pull rt tr = Inr ()"
  shows "check_images_pulled lib rt img ts s = (Inr (), s\<lparr>trace := trace s @ pulls lib img ts\<rparr>)
       \<and> check_images_pulled lib rt img ts (snd (check_images_pulled lib rt img ts s))
         = (Inr (), s\<lparr>trace := trace s @ pulls lib img ts @ pulls lib img ts\<rparr>)"
proof -
  have 1: "check_images_pulled lib rt img ts s' = (Inr (), s'\<lparr>trace := trace s' @ pulls lib img ts\<rparr>)"
    for s' :: "'a state"
    using assms by (intro check_images_pulled_ok) simp
  show ?thesis by (simp add: 1)
qed

theorem pulls_repeat_witness:
  "check_images_pulled plain healthy IMAGE_NAME [(1, 3, 0), (1, 2, 0)]
     (snd (check_images_pulled plain healthy IMAGE_NAME [(1, 3, 0), (1, 2, 0)] stocked))
   = (Inr (), stocked\<lparr>trace := [Images_pull IMAGE_NAME ''1.3.0'', Images_pull IMAGE_NAME ''1.2.0'',
                                 Images_pull IMAGE_NAME ''1.3.0'', Images_pull IMAGE_NAME ''1.2.0'']\<rparr>)"
proof -
  have a: "\<forall>tr. images_pull healthy tr = Inr ()" by (simp add: healthy_def)
  have e: "trace stocked @ pulls plain IMAGE_NAME [(1, 3, 0), (1, 2, 0)]
             @ pulls plain IMAGE_NAME [(1, 3, 0), (1, 2, 0)]
           = [Images_pull IMAGE_NAME ''1.3.0'', Images_pull IMAGE_NAME ''1.2.0'',
              Images_pull IMAGE_NAME ''1.3.0'', Images_pull IMAGE_NAME ''1.2.0'']"
    by (simp add: stocked_def)
  from pulls_repeat[OF a, of plain IMAGE_NAME "[(1, 3, 0), (1, 2, 0)]" stocked, THEN conjunct2]
  show ?thesis by (simp only: e)
qed

text \<open>
  C7 as stated fails: the runtime sees two pulls of the same image and version.
\<close>

theorem second_pull_counterexample:
  "trace (snd (check_images_pulled plain healthy IMAGE_NAME [(1, 2, 0)]
           (snd (check_images_pulled plain healthy IMAGE_NAME [(1, 2, 0)] initial))))
   = [Images_pull IMAGE_NAME ''1.2.0'', Images_pull IMAGE_NAME ''1.2.0'']"
  by (simp add: healthy_def initial_def call_def)

text \<open>
  C9, as amended. Startup refreshes the catalog once and then pulls the supported
  versions in the order of the catalog. When every pull succeeds, startup completes having
  pulled them all. The first pull that fails ends startup with its error, and the versions
  after it are not pulled.
\<close>

theorem startup_pulls_until_failure:
  fixes lib :: "'v::ord semver"
  assumes "requests_get rt (trace s @ [refresh_call DOCKER_USER DOCKER_REPO]) = Inr (200, Results names)"
    and "tags = List.map_filter (Version lib) names"
    and "tr = trace s @ [refresh_call DOCKER_USER DOCKER_REPO]"
  shows "((\<forall>j<length tags. images_pull rt (tr @ pulls lib IMAGE_NAME (take (Suc j) tags)) = Inr ()) \<longrightarrow>
            fst (lifespan_startup lib rt s) = Inr () \<and>
            trace (snd (lifespan_startup lib rt s)) = tr @ pulls lib IMAGE_NAME tags)
       \<and> (\<forall>k e. k < length tags \<and>
              (\<forall>j<k. images_pull rt (tr @ pulls lib IMAGE_NAME (take (Suc j) tags)) = Inr ()) \<and>
              images_pull rt (tr @ pulls lib IMAGE_NAME (take (Suc k) tags)) = Inl e \<longrightarrow>
            fst (lifespan_startup lib rt s) = Inl e \<and>
            trace (snd (lifespan_startup lib rt s)) = tr @ pulls lib IMAGE_NAME (take (Suc k) tags))"
proof -
  obtain res s1 where g: "get_latest_image_tags lib rt DOCKER_USER DOCKER_REPO s = (res, s1)"
    by (cases "get_latest_image_tags lib rt DOCKER_USER DOCKER_REPO s")
  from refresh_cases[OF g] assms(1)
  have r: "res = Inr ()" and t1: "trace s1 = tr"
    and c: "catalog s1 = parse_tags lib names [] None"
    by (simp_all add: assms(3))
  from c have "fst (catalog s1) = fst (parse_tags lib names [] None)" by simp
  then have lt: "latest_tags s1 = tags"
    by (simp add: catalog_def parse_tags_fst assms(2))
  have st: "lifespan_startup lib rt s = check_images_pulled lib rt IMAGE_NAME tags s1"
    using g r lt by (simp add: lifespan_startup_def)
  have ok: "fst (lifespan_startup lib rt s) = Inr () \<and>
            trace (snd (lifespan_startup lib rt s)) = tr @ pulls lib IMAGE_NAME tags"
    if "\<forall>j<length tags. images_pull rt (tr @ pulls lib IMAGE_NAME (take (Suc j) tags)) = Inr ()"
    using check_images_pulled_ok[of tags rt s1 lib IMAGE_NAME] that t1 st by simp
  have bad: "fst (lifespan_startup lib rt s) = Inl e \<and>
            trace (snd (lifespan_startup lib rt s)) = tr @ pulls lib IMAGE_NAME (take (Suc k) tags)"
    if "k < length tags"
      "\<forall>j<k. images_pull rt (tr @ pulls lib IMAGE_NAME (take (Suc j) tags)) = Inr ()"
      "images_pull rt (tr @ pulls lib IMAGE_NAME (take (Suc k) tags)) = Inl e" for k e
    using check_images_pulled_fail[of k tags rt s1 lib IMAGE_NAME e] that t1 st by simp
  from ok bad show ?thesis by blast
qed

text \<open>
  C9 as stated fails: the failed pull of 1.3.0 ends startup with \<open>NotFound\<close>, and 1.2.0 is
  never pulled.
\<close>

theorem startup_aborts_counterexample:
  "lifespan_startup plain first_pull_fails initial
   = (Inl NotFound,
      \<lparr> containers = [], latest_tags = [(1, 3, 0), (1, 2, 0)], min_supported_tag = Some (1, 2, 0),
        trace = [refresh_call DOCKER_USER DOCKER_REPO, Images_pull IMAGE_NAME ''1.3.0''] \<rparr>)"
  by (simp add: lifespan_startup_def get_latest_image_tags_def first_pull_fails_def healthy_def
      plain_def initial_def call_def refresh_call_def str_nat.simps digit_char_def)

theorem startup_pulls_until_failure_witness:
  "fst (lifespan_startup plain healthy initial) = Inr ()
   \<and> trace (snd (lifespan_startup plain healthy initial))
       = [refresh_call DOCKER_USER DOCKER_REPO,
          Images_pull IMAGE_NAME ''1.3.0'', Images_pull IMAGE_NAME ''1.2.0'']
   \<and> fst (lifespan_startup plain first_pull_fails initial) = Inl NotFound
   \<and> trace (snd (lifespan_startup plain first_pull_fails initial))
       = [refresh_call DOCKER_USER DOCKER_REPO, Images_pull IMAGE_NAME ''1.3.0'']"
proof -
  let ?tr = "trace (initial :: (nat \<times> nat \<times> nat) state) @ [refresh_call DOCKER_USER DOCKER_REPO]"
  let ?tags = "[(1, 3, 0), (1, 2, 0)] :: (nat \<times> nat \<times> nat) list"
  have a: "requests_get healthy ?tr = Inr (200, Results [''1.3.0'', ''latest'', ''1.2.0''])"
    by (simp add: healthy_def)
  have a': "requests_get first_pull_fails ?tr = Inr (200, Results [''1.3.0'', ''latest'', ''1.2.0''])"
    by (simp add: first_pull_fails_def healthy_def)
  have b: "?tags = List.map_filter (Version plain) [''1.3.0'', ''latest'', ''1.2.0'']"
    by (simp add: plain_def List.map_filter_simps)
  have ok: "\<forall>j<length ?tags. images_pull healthy (?tr @ pulls plain IMAGE_NAME (take (Suc j) ?tags)) = Inr ()"
    by (simp add: healthy_def)
  have bad: "0 < length ?tags
      \<and> (\<forall>j<0. images_pull first_pull_fails (?tr @ pulls plain IMAGE_NAME (take (Suc j) ?tags)) = Inr ())
      \<and> images_pull first_pull_fails (?tr @ pulls plain IMAGE_NAME (take (Suc 0) ?tags)) = Inl NotFound"
    by (simp add: first_pull_fails_def healthy_def)
  have e1: "?tr @ pulls plain IMAGE_NAME ?tags
            = [refresh_call DOCKER_USER DOCKER_REPO,
               Images_pull IMAGE_NAME ''1.3.0'', Images_pull IMAGE_NAME ''1.2.0'']"
    by (simp add: initial_def)
  have e2: "?tr @ pulls plain IMAGE_NAME (take (Suc 0) ?tags)
            = [refresh_call DOCKER_USER DOCKER_REPO, Images_pull IMAGE_NAME ''1.3.0'']"
    by (simp add: initial_def)
  from startup_pulls_until_failure[OF a b refl] ok
  have 1: "fst (lifespan_startup plain healthy initial) = Inr () \<and>
           trace (snd (lifespan_startup plain healthy initial)) = ?tr @ pulls plain IMAGE_NAME ?tags"
    by blast
  from startup_pulls_until_failure[OF a' b refl] bad
  have 2: "fst (lifespan_startup plain first_pull_fails initial) = Inl NotFound \<and>
           trace (snd (lifespan_startup plain first_pull_fails initial))
             = ?tr @ pulls plain IMAGE_NAME (take (Suc 0) ?tags)"
    by blast
  from 1 2 show ?thesis by (simp only: e1 e2)
qed

subsection \<open>Reconciling the registry\<close>

lemma reloads_simps [simp]:
  "reloads [] = []" "reloads (k # ks) = Container_reload k # reloads ks"
  "reloads (xs @ ys) = reloads xs @ reloads ys"
  by (simp_all add: reloads_def)

lemma pop_present:
  "k \<in> fst ` set (containers s) \<Longrightarrow>
     pop k s = (Inr (), s\<lparr>containers := AList.delete k (containers s)\<rparr>)"
  by (auto simp: pop_def map_of_eq_None_iff split: option.splits)

lemma reconcile_stopped:
  assumes "container_id ` set todo \<subseteq> fst ` set (containers s)"
    and "distinct (map container_id todo)"
  shows "reconcile rt todo s
         = (Inr (), s\<lparr>containers :=
                         filter (\<lambda>(k, c). k \<notin> set (stopped rt (trace s) (map container_id todo)))
                           (containers s),
                       trace := trace s @ reloads (map container_id todo)\<rparr>)"
  using assms
proof (induction todo arbitrary: s)
  case Nil
  then show ?case by simp
next
  case (Cons c cs)
  let ?k = "container_id c"
  let ?s1 = "call (Container_reload ?k) s"
  show ?case
  proof (cases "container_reload rt (trace s @ [Container_reload ?k]) = Inr ''running''")
    case True
    have "container_id ` set cs \<subseteq> fst ` set (containers ?s1)" using Cons.prems(1) by simp
    moreover have "distinct (map container_id cs)" using Cons.prems(2) by simp
    ultimately show ?thesis using Cons.IH[of ?s1] True by (simp add: call_def)
  next
    case False
    let ?s2 = "?s1\<lparr>containers := AList.delete ?k (containers ?s1)\<rparr>"
    have p: "pop ?k ?s1 = (Inr (), ?s2)"
      using Cons.prems(1) by (intro pop_present) simp
    have nk: "?k \<notin> container_id ` set cs" using Cons.prems(2) by auto
    have del: "fst ` set (AList.delete ?k (containers s)) = fst ` set (containers s) - {?k}"
      using AList.delete_keys[of ?k "containers s"] by (metis set_map set_removeAll)
    have a: "container_id ` set cs \<subseteq> fst ` set (containers ?s2)"
    proof
      fix k assume k: "k \<in> container_id ` set cs"
      with nk have "k \<noteq> ?k" by blast
      moreover from k Cons.prems(1) have "k \<in> fst ` set (containers s)" by auto
      ultimately show "k \<in> fst ` set (containers ?s2)" using del by simp
    qed
    have b: "distinct (map container_id cs)" using Cons.prems(2) by simp
    have f: "filter (\<lambda>(k, c). k \<notin> set ks) (AList.delete ?k xs)
             = filter (\<lambda>(k, c). k \<notin> set (?k # ks)) xs" for ks and xs :: "(string \<times> container) list"
      by (auto simp: AList.delete_eq intro!: filter_cong)
    show ?thesis using Cons.IH[OF a b] False p f by (simp add: call_def)
  qed
qed

lemma stopped_subset: "set (stopped rt tr ks) \<subseteq> set ks"
  by (induction ks arbitrary: tr) auto

lemma stopped_append:
  "stopped rt tr (xs @ ys) = stopped rt tr xs @ stopped rt (tr @ reloads xs) ys"
  by (induction xs arbitrary: tr) auto

lemma last_reload:
  assumes "k \<notin> set post"
  shows "rev (dropWhile (\<lambda>e. e \<noteq> Container_reload k) (rev (tr @ reloads (pre @ k # post))))
         = tr @ reloads pre @ [Container_reload k]"
proof -
  have "dropWhile (\<lambda>e. e \<noteq> Container_reload k) (rev (reloads post)) = []"
    using assms by (auto simp: reloads_def)
  then have "dropWhile (\<lambda>e. e \<noteq> Container_reload k) (rev (reloads post) @ Container_reload k # rest)
        = Container_reload k # rest" for rest
    by (simp add: dropWhile_append)
  then show ?thesis by simp
qed

lemma stopped_iff:
  assumes "distinct ks" and "k \<in> set ks"
  shows "k \<in> set (stopped rt tr ks) \<longleftrightarrow> reload_answer rt (tr @ reloads ks) k \<noteq> Inr ''running''"
proof -
  from assms(2) obtain pre post where ks: "ks = pre @ k # post"
    by (auto simp: in_set_conv_decomp)
  with assms(1) have npre: "k \<notin> set pre" and npost: "k \<notin> set post" by auto
  have "set (stopped rt tr pre) \<subseteq> set pre" by (rule stopped_subset)
  with npre have 1: "k \<notin> set (stopped rt tr pre)" by auto
  have "set (stopped rt (tr @ reloads pre @ [Container_reload k]) post) \<subseteq> set post"
    by (rule stopped_subset)
  with npost have 2: "k \<notin> set (stopped rt (tr @ reloads pre @ [Container_reload k]) post)" by auto
  have "k \<in> set (stopped rt tr ks) \<longleftrightarrow>
        container_reload rt (tr @ reloads pre @ [Container_reload k]) \<noteq> Inr ''running''"
    using 1 2 by (simp add: ks stopped_append)
  also have "\<dots> \<longleftrightarrow> reload_answer rt (tr @ reloads ks) k \<noteq> Inr ''running''"
    using last_reload[OF npost, of tr pre] by (simp add: reload_answer_def ks)
  finally show ?thesis .
qed

lemma remove_stopped_containers_spec:
  assumes "registry_ok (containers s)"
  shows "remove_stopped_containers rt s
         = (Inr (),
            s\<lparr>containers :=
                filter (\<lambda>(k, c). reload_answer rt (trace s @ reloads (map fst (containers s))) k
                                  = Inr ''running'') (containers s),
              trace := trace s @ reloads (map fst (containers s))\<rparr>)"
proof -
  from assms have d: "distinct (map fst (containers s))"
    and ids: "\<forall>(k, c) \<in> set (containers s). container_id c = k"
    by (auto simp: registry_ok_def)
  from ids have m: "map container_id (map snd (containers s)) = map fst (containers s)"
    by (auto simp: map_eq_conv)
  have a: "container_id ` set (map snd (containers s)) \<subseteq> fst ` set (containers s)"
    using ids by (auto simp: image_iff) force
  have b: "distinct (map container_id (map snd (containers s)))" unfolding m using d .
  have f: "filter (\<lambda>(k, c). k \<notin> set (stopped rt (trace s) (map fst (containers s)))) (containers s)
         = filter (\<lambda>(k, c). reload_answer rt (trace s @ reloads (map fst (containers s))) k
                                  = Inr ''running'') (containers s)"
  proof (rule filter_cong[OF refl])
    fix x assume "x \<in> set (containers s)"
    then have "fst x \<in> set (map fst (containers s))" by simp
    from stopped_iff[OF d this, of rt "trace s"]
    show "(case x of (k, c) \<Rightarrow> k \<notin> set (stopped rt (trace s) (map fst (containers s))))
        = (case x of (k, c) \<Rightarrow> reload_answer rt (trace s @ reloads (map fst (containers s))) k
                                  = Inr ''running'')"
      by (cases x) auto
  qed
  from reconcile_stopped[OF a b, of rt]
  have "reconcile rt (map snd (containers s)) s
        = (Inr (),
           s\<lparr>containers :=
               filter (\<lambda>(k, c). k \<notin> set (stopped rt (trace s) (map fst (containers s))))
                 (containers s),
             trace := trace s @ reloads (map fst (containers s))\<rparr>)"
    unfolding m .
  then show ?thesis
    unfolding remove_stopped_containers_def f .
qed

lemma registry_ok_filter: "registry_ok cs \<Longrightarrow> registry_ok (filter P cs)"
  by (auto simp: registry_ok_def distinct_map_filter)

lemma registry_ok_update:
  "registry_ok cs \<Longrightarrow> registry_ok (AList.update (container_id c) c cs)"
proof -
  assume ok: "registry_ok cs"
  have sub: "set (AList.update k v al) \<subseteq> insert (k, v) (set al)"
    for k :: string and v :: container and al
    by (induction al) auto
  have "container_id b = a" if "(a, b) \<in> set (AList.update (container_id c) c cs)" for a b
  proof -
    from that sub[of "container_id c" c cs]
    have "(a, b) = (container_id c, c) \<or> (a, b) \<in> set cs" by blast
    with ok show ?thesis by (auto simp: registry_ok_def)
  qed
  moreover have "distinct (map fst (AList.update (container_id c) c cs))"
    using ok by (simp add: registry_ok_def AList.distinct_update)
  ultimately show ?thesis by (auto simp: registry_ok_def)
qed

text \<open>
  C10. In a registry whose keys are distinct and are the ids of the containers they hold
  (the only entries \<open>create_server\<close> makes), reconciliation raises nothing. It reloads every
  tracked container once, keeps exactly the entries whose reload answered \<open>running\<close>, in
  their order, removes those whose reload raised or answered anything else, and leaves the
  catalog alone.
\<close>

theorem reconcile_keeps_running:
  assumes "registry_ok (containers s)"
    and "s' = snd (remove_stopped_containers rt s)"
  shows "fst (remove_stopped_containers rt s) = Inr ()
       \<and> trace s' = trace s @ reloads (map fst (containers s))
       \<and> containers s' = filter (\<lambda>(k, c). reload_answer rt (trace s') k = Inr ''running'')
                           (containers s)
       \<and> registry_ok (containers s')
       \<and> latest_tags s' = latest_tags s \<and> min_supported_tag s' = min_supported_tag s"
  using remove_stopped_containers_spec[OF assms(1), of rt] assms
  by (simp add: registry_ok_filter)

theorem reconcile_keeps_running_witness:
  "remove_stopped_containers mixed_fleet fleet
   = (Inr (), fleet\<lparr>containers := [(''c1'', Container ''c1'')],
                     trace := [Container_reload ''c1'', Container_reload ''c2'',
                               Container_reload ''c3'']\<rparr>)"
proof -
  have ok: "registry_ok (containers fleet)"
    by (simp add: registry_ok_def fleet_def)
  let ?s = "snd (remove_stopped_containers mixed_fleet fleet)"
  note th = reconcile_keeps_running[OF ok refl, of mixed_fleet]
  from th have r: "fst (remove_stopped_containers mixed_fleet fleet) = Inr ()" by blast
  from th have t: "trace ?s = [Container_reload ''c1'', Container_reload ''c2'',
                               Container_reload ''c3'']"
    by (simp add: fleet_def stocked_def)
  from th have "containers ?s = filter (\<lambda>(k, c). reload_answer mixed_fleet (trace ?s) k = Inr ''running'')
                           (containers fleet)" by blast
  then have c: "containers ?s = [(''c1'', Container ''c1'')]"
    unfolding t by (simp add: fleet_def reload_answer_def mixed_fleet_def healthy_def)
  from th have l: "latest_tags ?s = latest_tags fleet" "min_supported_tag ?s = min_supported_tag fleet"
    by blast+
  have "?s = fleet\<lparr>containers := [(''c1'', Container ''c1'')],
                     trace := [Container_reload ''c1'', Container_reload ''c2'',
                               Container_reload ''c3'']\<rparr>"
    using t c l by simp
  with r show ?thesis by (metis prod.collapse)
qed

subsection \<open>Creating the container\<close>

lemma attempt_events_simps [simp]:
  "attempt_events req [] = []"
  "attempt_events req (p # ps) = Find_free_port # Containers_run (run_request req p) # attempt_events req ps"
  by (simp_all add: attempt_events_def)

lemma runs_simps [simp]:
  "runs [] = 0"
  "runs (tr @ tr') = runs tr + runs tr'"
  "runs (Containers_run spec # tr) = Suc (runs tr)"
  "runs (Find_free_port # tr) = runs tr"
  "runs (Images_pull img t # tr) = runs tr"
  "runs (Requests_get url n # tr) = runs tr"
  "runs (Container_reload k # tr) = runs tr"
  by (simp_all add: runs_def)

lemma runs_pulls [simp]: "runs (pulls lib img ts) = 0"
  by (induction ts) simp_all

lemma try_run_port_fails:
  "find_free_port rt (trace s @ [Find_free_port]) = Inl e \<Longrightarrow>
     try_run rt req s = (Inl e, s\<lparr>trace := trace s @ [Find_free_port]\<rparr>)"
  by (simp add: try_run_def call_def)






lemma runs_attempt_events [simp]: "runs (attempt_events req ps) = length ps"
  by (induction ps) simp_all

lemma length_attempt_events [simp]: "length (attempt_events req ps) = 2 * length ps"
  by (induction ps) simp_all




lemma first_attempts: "[0..<MAX_CONTAINER_RETRIES] = 0 # 1 # [2..<MAX_CONTAINER_RETRIES]"
  by (simp add: MAX_CONTAINER_RETRIES_def upt_rec)

text \<open>
  C6 fails in the code. \<open>ImageNotFound\<close> is an \<open>APIError\<close>, and the \<open>except\<close> clause for
  \<open>APIError\<close> comes first, so the clause that pulls again is never reached: after a first
  attempt that fails with \<open>ImageNotFound\<close>, the second attempt follows with no pull in
  between.
\<close>

theorem image_missing_is_not_pulled_again:
  "create_server plain image_evicted room stocked
   = (Inr 40005,
      stocked\<lparr>containers := [(''c2'', Container ''c2'')],
              trace := [Images_pull IMAGE_NAME ''1.3.0'', Images_pull IMAGE_NAME ''1.2.0'',
                        Find_free_port, Containers_run (run_request room 40003),
                        Find_free_port, Containers_run (run_request room 40005)]\<rparr>)"
  by (simp add: create_server_def first_attempts try_run_def image_evicted_def healthy_def
      stocked_def call_def)

text \<open>
  C3 fails in the code. With no minimum (here after a startup whose refresh was answered
  503), a request for a version that parses, below capacity, ends in the \<open>TypeError\<close> of
  comparing a version with \<open>None\<close>, which nothing catches.
\<close>

theorem absent_minimum_raises_type_error:
  "lifespan_startup plain registry_unavailable initial
     = (Inr (), initial\<lparr>trace := [refresh_call DOCKER_USER DOCKER_REPO]\<rparr>)
   \<and> request_game plain registry_unavailable room
       (initial\<lparr>trace := [refresh_call DOCKER_USER DOCKER_REPO]\<rparr>)
     = (Inl TypeError, initial\<lparr>trace := [refresh_call DOCKER_USER DOCKER_REPO]\<rparr>)"
  by (simp add: lifespan_startup_def get_latest_image_tags_def registry_unavailable_def
      healthy_def initial_def call_def refresh_call_def request_game_def room_def plain_def
      MAX_RUNNING_SERVERS_def)

subsection \<open>Handling a request\<close>

lemma refreshes_simps [simp]:
  "refreshes [] = 0"
  "refreshes (tr @ tr') = refreshes tr + refreshes tr'"
  "refreshes (Requests_get url n # tr) = Suc (refreshes tr)"
  "refreshes (Containers_run spec # tr) = refreshes tr"
  "refreshes (Find_free_port # tr) = refreshes tr"
  "refreshes (Images_pull img t # tr) = refreshes tr"
  "refreshes (Container_reload k # tr) = refreshes tr"
  by (simp_all add: refreshes_def)

lemma refreshes_pulls [simp]: "refreshes (pulls lib img ts) = 0"
  by (induction ts) simp_all

lemma refreshes_reloads [simp]: "refreshes (reloads ks) = 0"
  by (induction ks) simp_all

lemma refreshes_refresh_call [simp]: "refreshes [refresh_call user repo] = 1"
  by (simp add: refresh_call_def)

lemma check_images_pulled_refreshes:
  "check_images_pulled lib rt img ts s = (res, s') \<Longrightarrow> refreshes (trace s') = refreshes (trace s)"
  by (drule check_images_pulled_frame) auto

lemma try_run_refreshes:
  "try_run rt req s = (res, s') \<Longrightarrow> refreshes (trace s') = refreshes (trace s)"
  by (auto simp: try_run_def Let_def split: sum.splits)

lemma try_run_latest_tags:
  "try_run rt req s = (res, s') \<Longrightarrow> latest_tags s' = latest_tags s"
  by (auto simp: try_run_def Let_def split: sum.splits)

lemma create_loop_refreshes:
  "create_loop lib rt req as s = (res, s') \<Longrightarrow> refreshes (trace s') = refreshes (trace s)"
proof (induction as arbitrary: s)
  case Nil
  then show ?case by simp
next
  case (Cons a as)
  obtain r1 s1 where t: "try_run rt req s = (r1, s1)" by (cases "try_run rt req s")
  note f1 = try_run_refreshes[OF t]
  show ?case
  proof (cases r1)
    case (Inr cp)
    with Cons.prems t f1 show ?thesis by (cases cp) auto
  next
    case (Inl e)
    show ?thesis
    proof (cases "isinstance_APIError e")
      case True
      with Cons.prems t Inl have "create_loop lib rt req as s1 = (res, s')" by simp
      from Cons.IH[OF this] f1 show ?thesis by simp
    next
      case False
      then have "\<not> isinstance_ImageNotFound e" by (cases e) simp_all
      with Cons.prems t Inl False f1 show ?thesis by simp
    qed
  qed
qed

lemma create_server_refreshes:
  "create_server lib rt req s = (res, s') \<Longrightarrow> refreshes (trace s') = refreshes (trace s)"
proof -
  assume a: "create_server lib rt req s = (res, s')"
  obtain r1 s1 where c: "check_images_pulled lib rt IMAGE_NAME (latest_tags s) s = (r1, s1)"
    by (cases "check_images_pulled lib rt IMAGE_NAME (latest_tags s) s")
  note f1 = check_images_pulled_refreshes[OF c]
  show ?thesis
  proof (cases r1)
    case (Inl e)
    with a c f1 show ?thesis by (simp add: create_server_def)
  next
    case (Inr u)
    with a c have "create_loop lib rt req [0..<MAX_CONTAINER_RETRIES] s1 = (res, s')"
      by (simp add: create_server_def)
    from create_loop_refreshes[OF this] f1 show ?thesis by simp
  qed
qed

text \<open>
  C1, as amended. A request is handled in four stages, each reached only if the ones
  before let the request through, in a registry as \<open>create_server\<close> builds it. A version
  string that does not parse is answered 400 and leaves the state, the history of calls
  included, as it was. Otherwise the registry is reconciled: every tracked container is
  reloaded, exactly those whose reload answered \<open>running\<close> are kept, and nothing else is
  called or changed; a registry that is still full is answered 429. Otherwise, where there
  is a minimum, a version below it is answered 426. Otherwise a version in the supported
  list goes on to \<open>create_server\<close> with no refresh; one that is not is looked up again
  after a single refresh, which only calls the registry. If that refresh raises, its
  exception is the answer; if it returns and the version is still not supported, the
  answer is 400. Whatever the outcome, the request calls the registry at most once.
\<close>

theorem request_game_stages:
  fixes lib :: "'v::ord semver"
  assumes "registry_ok (containers s)"
    and "s1 = snd (remove_stopped_containers rt s)"
    and "refreshed = get_latest_image_tags lib rt DOCKER_USER DOCKER_REPO s1"
    and "out = request_game lib rt req s"
  shows
   "(Version lib (version req) = None \<longrightarrow> out = (Inl (invalid_version lib s), s))
  \<and> (\<forall>v. Version lib (version req) = Some v \<longrightarrow>
       trace s1 = trace s @ reloads (map fst (containers s)) \<and> catalog s1 = catalog s \<and>
       containers s1 = filter (\<lambda>(k, c). reload_answer rt (trace s1) k = Inr ''running'')
                         (containers s) \<and>
       (MAX_RUNNING_SERVERS \<le> length (containers s1) \<longrightarrow> out = (Inl capacity_exceeded, s1)) \<and>
       (length (containers s1) < MAX_RUNNING_SERVERS \<longrightarrow>
          (\<forall>m. min_supported_tag s1 = Some m \<longrightarrow>
             (v < m \<longrightarrow> out = (Inl (version_too_old lib s1), s1)) \<and>
             (\<not> v < m \<and> v \<in> set (latest_tags s1) \<longrightarrow> out = create_server lib rt req s1) \<and>
             (\<not> v < m \<and> v \<notin> set (latest_tags s1) \<longrightarrow>
                trace (snd refreshed) = trace s1 @ [refresh_call DOCKER_USER DOCKER_REPO] \<and>
                containers (snd refreshed) = containers s1 \<and>
                (\<forall>e. fst refreshed = Inl e \<longrightarrow> out = (Inl e, snd refreshed)) \<and>
                (fst refreshed = Inr () \<and> v \<notin> set (latest_tags (snd refreshed)) \<longrightarrow>
                   out = (Inl (unsupported_version lib (snd refreshed)), snd refreshed)) \<and>
                (fst refreshed = Inr () \<and> v \<in> set (latest_tags (snd refreshed)) \<longrightarrow>
                   out = create_server lib rt req (snd refreshed))))))
  \<and> refreshes (trace (snd out)) \<le> refreshes (trace s) + 1"
proof -
  note spec = remove_stopped_containers_spec[OF assms(1), of rt]
  have rs: "remove_stopped_containers rt s = (Inr (), s1)"
    using spec assms(2) by simp
  have t1: "trace s1 = trace s @ reloads (map fst (containers s))"
    and c1: "catalog s1 = catalog s"
    using spec assms(2) by (simp_all add: catalog_def)
  have "containers s1
        = filter (\<lambda>(k, c). reload_answer rt (trace s @ reloads (map fst (containers s))) k
                           = Inr ''running'') (containers s)"
    using spec assms(2) by simp
  then have k1: "containers s1
        = filter (\<lambda>(k, c). reload_answer rt (trace s1) k = Inr ''running'') (containers s)"
    unfolding t1 .
  obtain gr s2 where g: "refreshed = (gr, s2)" by (cases refreshed)
  with assms(3) have g': "get_latest_image_tags lib rt DOCKER_USER DOCKER_REPO s1 = (gr, s2)"
    by simp
  from refresh_cases[OF g']
  have t2: "trace s2 = trace s1 @ [refresh_call DOCKER_USER DOCKER_REPO]"
    and c2: "containers s2 = containers s1"
    by simp_all
  have A: "Version lib (version req) = None \<longrightarrow> out = (Inl (invalid_version lib s), s)"
    using assms(4) by (simp add: request_game_def)
  have B: "MAX_RUNNING_SERVERS \<le> length (containers s1) \<longrightarrow> out = (Inl capacity_exceeded, s1)"
    if "Version lib (version req) = Some v" for v
    using assms(4) that rs by (simp add: request_game_def)
  have C: "min_supported_tag s1 = None \<longrightarrow> out = (Inl TypeError, s1)"
    if "Version lib (version req) = Some v" "length (containers s1) < MAX_RUNNING_SERVERS" for v
    using assms(4) that rs by (simp add: request_game_def)
  have D: "(v < m \<longrightarrow> out = (Inl (version_too_old lib s1), s1)) \<and>
           (\<not> v < m \<and> v \<in> set (latest_tags s1) \<longrightarrow> out = create_server lib rt req s1)"
    if "Version lib (version req) = Some v" "length (containers s1) < MAX_RUNNING_SERVERS"
      "min_supported_tag s1 = Some m" for v m
    using assms(4) that rs by (simp add: request_game_def)
  have E: "(\<forall>e. fst refreshed = Inl e \<longrightarrow> out = (Inl e, snd refreshed)) \<and>
           (fst refreshed = Inr () \<and> v \<notin> set (latest_tags (snd refreshed)) \<longrightarrow>
              out = (Inl (unsupported_version lib (snd refreshed)), snd refreshed)) \<and>
           (fst refreshed = Inr () \<and> v \<in> set (latest_tags (snd refreshed)) \<longrightarrow>
              out = create_server lib rt req (snd refreshed))"
    if "Version lib (version req) = Some v" "length (containers s1) < MAX_RUNNING_SERVERS"
      "min_supported_tag s1 = Some m" "\<not> v < m" "v \<notin> set (latest_tags s1)" for v m
    using assms(4) that rs g g' by (cases gr) (simp_all add: request_game_def)
  have r1: "refreshes (trace s1) = refreshes (trace s)" using t1 by simp
  have r2: "refreshes (trace s2) = refreshes (trace s) + 1" using t2 r1 by simp
  have cs: "refreshes (trace (snd (create_server lib rt req x))) = refreshes (trace x)"
    for x :: "'v state"
    using create_server_refreshes[of lib rt req x] by (cases "create_server lib rt req x") simp
  have F: "refreshes (trace (snd out)) \<le> refreshes (trace s) + 1"
  proof (cases "Version lib (version req)")
    case None
    with A show ?thesis by simp
  next
    case (Some v)
    show ?thesis
    proof (cases "MAX_RUNNING_SERVERS \<le> length (containers s1)")
      case True
      with B[OF Some] r1 show ?thesis by simp
    next
      case False
      then have lt: "length (containers s1) < MAX_RUNNING_SERVERS" by simp
      show ?thesis
      proof (cases "min_supported_tag s1")
        case None
        with C[OF Some lt] r1 show ?thesis by simp
      next
        case (Some m)
        note D' = D[OF \<open>Version lib (version req) = Some v\<close> lt Some]
        show ?thesis
        proof (cases "v < m")
          case True
          with D' r1 show ?thesis by simp
        next
          case nlt: False
          show ?thesis
          proof (cases "v \<in> set (latest_tags s1)")
            case True
            with D' nlt cs[of s1] r1 show ?thesis by simp
          next
            case False
            note E' = E[OF \<open>Version lib (version req) = Some v\<close> lt Some nlt False]
            show ?thesis
            proof (cases gr)
              case (Inl e)
              with E' g r2 show ?thesis by simp
            next
              case (Inr u)
              with E' g r2 cs[of s2] show ?thesis
                by (cases "v \<in> set (latest_tags s2)") simp_all
            qed
          qed
        qed
      qed
    qed
  qed
  from A B D E F t1 c1 k1 t2 c2 g show ?thesis by simp
qed

lemma registry_ok_full_house: "registry_ok (containers full_house)"
  by code_simp

lemma registry_ok_stocked: "registry_ok (containers stocked)"
  by (simp add: registry_ok_def stocked_def)

lemma supported_versions_stocked: "supported_versions plain stocked = ''1.3.0, 1.2.0''"
  by (simp add: supported_versions_def stocked_def)

lemma reconcile_stocked: "remove_stopped_containers rt stocked = (Inr (), stocked)"
  by (simp add: stocked_def)

lemma refresh_stocked:
  "get_latest_image_tags plain healthy DOCKER_USER DOCKER_REPO stocked
   = (Inr (), stocked\<lparr>trace := [refresh_call DOCKER_USER DOCKER_REPO]\<rparr>)"
  by (simp add: get_latest_image_tags_def healthy_def plain_def stocked_def call_def
      refresh_call_def)

lemma registry_ok_fleet: "registry_ok (containers fleet)"
  by (simp add: registry_ok_def fleet_def)

lemma reconcile_fleet:
  "remove_stopped_containers mixed_fleet fleet
   = (Inr (), fleet\<lparr>containers := [(''c1'', Container ''c1'')],
                     trace := [Container_reload ''c1'', Container_reload ''c2'',
                               Container_reload ''c3'']\<rparr>)"
  by (simp add: remove_stopped_containers_def fleet_def stocked_def mixed_fleet_def healthy_def
      call_def pop_def)

lemma refresh_down_stocked:
  "get_latest_image_tags plain registry_down DOCKER_USER DOCKER_REPO stocked
   = (Inl ConnectionError, stocked\<lparr>trace := [refresh_call DOCKER_USER DOCKER_REPO]\<rparr>)"
  by (simp add: get_latest_image_tags_def registry_down_def healthy_def stocked_def call_def
      refresh_call_def)

theorem request_game_stages_witness:
  "request_game plain healthy untagged stocked
     = (Inl (HTTPException 400
         ''Request didn't contain a valid version! Supported versions: 1.3.0, 1.2.0''), stocked)
   \<and> request_game plain healthy room full_house
     = (Inl (HTTPException 429
         ''Max amount of official servers reached! Try joining a public one.''),
        full_house\<lparr>trace := reloads (map fst (containers full_house))\<rparr>)
   \<and> request_game plain healthy outdated stocked
     = (Inl (HTTPException 426
         ''Your game version is out of date! Supported versions: 1.3.0, 1.2.0''), stocked)
   \<and> request_game plain healthy unlisted stocked
     = (Inl (HTTPException 400 ''Unsupported game version! Supported versions: 1.3.0, 1.2.0''),
        stocked\<lparr>trace := [refresh_call DOCKER_USER DOCKER_REPO]\<rparr>)
   \<and> request_game plain registry_down unlisted stocked
     = (Inl ConnectionError, stocked\<lparr>trace := [refresh_call DOCKER_USER DOCKER_REPO]\<rparr>)
   \<and> request_game plain mixed_fleet outdated fleet
     = (Inl (HTTPException 426
         ''Your game version is out of date! Supported versions: 1.3.0, 1.2.0''),
        fleet\<lparr>containers := [(''c1'', Container ''c1'')],
              trace := [Container_reload ''c1'', Container_reload ''c2'',
                        Container_reload ''c3'']\<rparr>)"
proof -
  note ok = registry_ok_stocked
  have 1: "request_game plain healthy untagged stocked = (Inl (invalid_version plain stocked), stocked)"
  proof -
    have "Version plain (version untagged) = None" by (simp add: untagged_def plain_def)
    with request_game_stages[OF ok refl refl refl, where lib = plain and rt = healthy and req = untagged]
    show ?thesis by blast
  qed
  have 2: "request_game plain healthy room full_house
           = (Inl capacity_exceeded, full_house\<lparr>trace := reloads (map fst (containers full_house))\<rparr>)"
  proof -
    have v: "Version plain (version room) = Some (1, 2, 0)" by (simp add: room_def plain_def)
    have "reload_answer healthy tr k = Inr ''running''" for tr k
      by (simp add: reload_answer_def healthy_def)
    with remove_stopped_containers_spec[OF registry_ok_full_house, of healthy]
    have s1: "snd (remove_stopped_containers healthy full_house)
              = full_house\<lparr>trace := reloads (map fst (containers full_house))\<rparr>"
      by (simp add: full_house_def stocked_def)
    have "MAX_RUNNING_SERVERS \<le> length (containers (snd (remove_stopped_containers healthy full_house)))"
      unfolding s1 by (simp add: full_house_def)
    with v request_game_stages[OF registry_ok_full_house refl refl refl,
        where lib = plain and rt = healthy and req = room]
    have "request_game plain healthy room full_house
          = (Inl capacity_exceeded, snd (remove_stopped_containers healthy full_house))"
      by blast
    then show ?thesis unfolding s1 .
  qed
  have s1: "snd (remove_stopped_containers healthy stocked) = stocked"
    by (simp add: reconcile_stocked)
  have cap: "length (containers stocked) < MAX_RUNNING_SERVERS"
    by (simp add: stocked_def MAX_RUNNING_SERVERS_def)
  have m: "min_supported_tag stocked = Some (1, 2, 0)" by (simp add: stocked_def)
  have 3: "request_game plain healthy outdated stocked = (Inl (version_too_old plain stocked), stocked)"
  proof -
    have v: "Version plain (version outdated) = Some (1, 1, 9)"
      by (simp add: outdated_def plain_def)
    have lt: "((1, 1, 9) :: nat \<times> nat \<times> nat) < (1, 2, 0)" by simp
    from request_game_stages[OF ok refl refl refl,
        where lib = plain and rt = healthy and req = outdated, unfolded s1] v cap m lt
    show ?thesis by blast
  qed
  have 4: "request_game plain healthy unlisted stocked
           = (Inl (unsupported_version plain (stocked\<lparr>trace := [refresh_call DOCKER_USER DOCKER_REPO]\<rparr>)),
              stocked\<lparr>trace := [refresh_call DOCKER_USER DOCKER_REPO]\<rparr>)"
  proof -
    have v: "Version plain (version unlisted) = Some (1, 2, 1)"
      by (simp add: unlisted_def plain_def)
    have nlt: "\<not> ((1, 2, 1) :: nat \<times> nat \<times> nat) < (1, 2, 0)" by simp
    have nin: "((1, 2, 1) :: nat \<times> nat \<times> nat) \<notin> set (latest_tags stocked)"
      by (simp add: stocked_def)
    have f: "fst (get_latest_image_tags plain healthy DOCKER_USER DOCKER_REPO stocked) = Inr ()"
      and nin': "((1, 2, 1) :: nat \<times> nat \<times> nat) \<notin> set (latest_tags
         (snd (get_latest_image_tags plain healthy DOCKER_USER DOCKER_REPO stocked)))"
      unfolding refresh_stocked by (simp_all add: stocked_def)
    from request_game_stages[OF ok refl refl refl,
        where lib = plain and rt = healthy and req = unlisted, unfolded s1] v cap m nlt nin f nin'
    have "request_game plain healthy unlisted stocked
          = (Inl (unsupported_version plain
                (snd (get_latest_image_tags plain healthy DOCKER_USER DOCKER_REPO stocked))),
             snd (get_latest_image_tags plain healthy DOCKER_USER DOCKER_REPO stocked))"
      by blast
    then show ?thesis unfolding refresh_stocked by simp
  qed
  have 5: "request_game plain registry_down unlisted stocked
           = (Inl ConnectionError, stocked\<lparr>trace := [refresh_call DOCKER_USER DOCKER_REPO]\<rparr>)"
  proof -
    have r: "snd (remove_stopped_containers registry_down stocked) = stocked"
      by (simp add: reconcile_stocked)
    have v: "Version plain (version unlisted) = Some (1, 2, 1)"
      by (simp add: unlisted_def plain_def)
    have nlt: "\<not> ((1, 2, 1) :: nat \<times> nat \<times> nat) < (1, 2, 0)" by simp
    have nin: "((1, 2, 1) :: nat \<times> nat \<times> nat) \<notin> set (latest_tags stocked)"
      by (simp add: stocked_def)
    have f: "fst (get_latest_image_tags plain registry_down DOCKER_USER DOCKER_REPO stocked)
             = Inl ConnectionError"
      unfolding refresh_down_stocked by simp
    from request_game_stages[OF ok refl refl refl,
        where lib = plain and rt = registry_down and req = unlisted, unfolded r] v cap m nlt nin f
    have "request_game plain registry_down unlisted stocked
          = (Inl ConnectionError,
             snd (get_latest_image_tags plain registry_down DOCKER_USER DOCKER_REPO stocked))"
      by blast
    then show ?thesis unfolding refresh_down_stocked by simp
  qed
  let ?pruned = "fleet\<lparr>containers := [(''c1'', Container ''c1'')],
                      trace := [Container_reload ''c1'', Container_reload ''c2'',
                                Container_reload ''c3'']\<rparr>"
  have 6: "request_game plain mixed_fleet outdated fleet = (Inl (version_too_old plain ?pruned), ?pruned)"
  proof -
    have r: "snd (remove_stopped_containers mixed_fleet fleet) = ?pruned"
      unfolding reconcile_fleet by simp
    have v: "Version plain (version outdated) = Some (1, 1, 9)"
      by (simp add: outdated_def plain_def)
    have c: "length (containers ?pruned) < MAX_RUNNING_SERVERS"
      by (simp add: MAX_RUNNING_SERVERS_def)
    have mm: "min_supported_tag ?pruned = Some (1, 2, 0)"
      by (simp add: fleet_def stocked_def)
    have lt: "((1, 1, 9) :: nat \<times> nat \<times> nat) < (1, 2, 0)" by simp
    from request_game_stages[OF registry_ok_fleet refl refl refl,
        where lib = plain and rt = mixed_fleet and req = outdated, unfolded r] v c mm lt
    show ?thesis by blast
  qed
  have e6: "version_too_old plain ?pruned = HTTPException 426
         ''Your game version is out of date! Supported versions: 1.3.0, 1.2.0''"
    by (simp add: version_too_old_def supported_versions_def fleet_def stocked_def)
  have e1: "invalid_version plain stocked = HTTPException 400
         ''Request didn't contain a valid version! Supported versions: 1.3.0, 1.2.0''"
    by (simp add: invalid_version_def supported_versions_stocked)
  have e3: "version_too_old plain stocked = HTTPException 426
         ''Your game version is out of date! Supported versions: 1.3.0, 1.2.0''"
    by (simp add: version_too_old_def supported_versions_stocked)
  have e4: "unsupported_version plain (stocked\<lparr>trace := [refresh_call DOCKER_USER DOCKER_REPO]\<rparr>)
         = HTTPException 400 ''Unsupported game version! Supported versions: 1.3.0, 1.2.0''"
    by (simp add: unsupported_version_def supported_versions_def stocked_def)
  from 1 2 3 4 5 6 show ?thesis
    unfolding e1 e3 e4 e6 capacity_exceeded_def by blast
qed

text \<open>
  C1 as stated fails where the refresh raises: 1.2.1 parses, is not below the minimum and
  is supported neither before the refresh nor after it, yet the request ends with the
  \<open>ConnectionError\<close> of the registry call and not with the 400 of an unsupported version.
\<close>

theorem refresh_error_preempts_unsupported_counterexample:
  "Version plain (version unlisted) = Some (1, 2, 1)
   \<and> (1, 2, 1) \<notin> set (latest_tags stocked)
   \<and> request_game plain registry_down unlisted stocked
       = (Inl ConnectionError, stocked\<lparr>trace := [refresh_call DOCKER_USER DOCKER_REPO]\<rparr>)
   \<and> (1, 2, 1) \<notin> set (latest_tags (snd (request_game plain registry_down unlisted stocked)))"
  by (simp add: request_game_def unlisted_def plain_def stocked_def get_latest_image_tags_def
      registry_down_def healthy_def call_def refresh_call_def MAX_RUNNING_SERVERS_def)

subsection \<open>The registry stays keyed by container id\<close>

lemma registry_ok_initial: "registry_ok (containers initial)"
  by (simp add: registry_ok_def initial_def)

lemma try_run_containers:
  "try_run rt req s = (res, s') \<Longrightarrow> containers s' = containers s"
  by (auto simp: try_run_def Let_def split: sum.splits)

lemma create_loop_registry_ok:
  "registry_ok (containers s) \<Longrightarrow> create_loop lib rt req as s = (res, s') \<Longrightarrow>
     registry_ok (containers s')"
proof (induction as arbitrary: s)
  case Nil
  then show ?case by simp
next
  case (Cons a as)
  obtain r1 s1 where t: "try_run rt req s = (r1, s1)" by (cases "try_run rt req s")
  from try_run_containers[OF t] Cons.prems(1) have ok1: "registry_ok (containers s1)" by simp
  show ?case
  proof (cases r1)
    case (Inr cp)
    with Cons.prems(2) t ok1 show ?thesis
      by (cases cp) (auto simp: registry_ok_update)
  next
    case (Inl e)
    show ?thesis
    proof (cases "isinstance_APIError e")
      case True
      with Cons.prems(2) t Inl have "create_loop lib rt req as s1 = (res, s')" by simp
      from Cons.IH[OF ok1 this] show ?thesis .
    next
      case False
      then have "\<not> isinstance_ImageNotFound e" by (cases e) simp_all
      with Cons.prems(2) t Inl False ok1 show ?thesis by simp
    qed
  qed
qed

lemma create_server_registry_ok:
  assumes "registry_ok (containers s)" and "create_server lib rt req s = (res, s')"
  shows "registry_ok (containers s')"
proof -
  obtain r1 s1 where c: "check_images_pulled lib rt IMAGE_NAME (latest_tags s) s = (r1, s1)"
    by (cases "check_images_pulled lib rt IMAGE_NAME (latest_tags s) s")
  from check_images_pulled_frame[OF c] assms(1) have ok1: "registry_ok (containers s1)" by simp
  show ?thesis
  proof (cases r1)
    case (Inl e)
    with assms(2) c ok1 show ?thesis by (simp add: create_server_def)
  next
    case (Inr u)
    with assms(2) c have "create_loop lib rt req [0..<MAX_CONTAINER_RETRIES] s1 = (res, s')"
      by (simp add: create_server_def)
    from create_loop_registry_ok[OF ok1 this] show ?thesis .
  qed
qed

text \<open>
  The registry stays keyed by container id: it is so when the module is loaded, and every
  request leaves it so.
\<close>

lemma request_game_registry_ok:
  fixes lib :: "'v::ord semver"
  assumes "registry_ok (containers s)" and "request_game lib rt req s = (res, s')"
  shows "registry_ok (containers s')"
proof (cases "Version lib (version req)")
  case None
  with assms show ?thesis by (simp add: request_game_def)
next
  case (Some v)
  from remove_stopped_containers_spec[OF assms(1), of rt] assms(1)
  obtain s1 where rs: "remove_stopped_containers rt s = (Inr (), s1)"
    and ok1: "registry_ok (containers s1)"
    by (simp add: registry_ok_filter)
  obtain gr s2 where g: "get_latest_image_tags lib rt DOCKER_USER DOCKER_REPO s1 = (gr, s2)"
    by (cases "get_latest_image_tags lib rt DOCKER_USER DOCKER_REPO s1")
  from refresh_cases[OF g] ok1 have ok2: "registry_ok (containers s2)" by simp
  have c1: "registry_ok (containers (snd (create_server lib rt req x)))"
    if "registry_ok (containers x)" for x :: "'v state"
    using create_server_registry_ok[OF that, of lib rt req] by (cases "create_server lib rt req x") simp
  from assms(2) have "s' = snd (request_game lib rt req s)" by simp
  also have "registry_ok (containers (snd (request_game lib rt req s)))"
    using Some rs g ok1 ok2 c1[OF ok1] c1[OF ok2]
    by (cases gr) (auto simp: request_game_def split: option.splits)
  finally show ?thesis .
qed

end
